theory Spec2Isabelle
  imports Complex_Main "HOL-Library.Log_Nat" "HOL-Library.Word" "HOL-Library.Signed_Division"
begin

section \<open>Single-precision arithmetic of the host program\<close>

text \<open>
  The host program (\<^verbatim>\<open>sierpinski_enhanced.c\<close>, function \<^verbatim>\<open>main\<close>) keeps its camera state in
  C \<^verbatim>\<open>float\<close> variables and updates them with \<^verbatim>\<open>+=\<close> and \<^verbatim>\<open>-=\<close> on \<^verbatim>\<open>float\<close> literals.
  A finite binary32 value is represented by the rational number it denotes; every
  arithmetic result and every literal is rounded to the nearest binary32 value, ties to
  even (\<open>fl32\<close>). The exponent range is bounded below (subnormals, spacing \<open>2 powi (- 149)\<close>);
  overflow to infinity is not represented, and no value of the camera state comes near it.
\<close>

type_synonym float32 = rat

definition rne :: "rat \<Rightarrow> int" where
  \<comment> \<open>nearest integer, ties to the even one\<close>
  "rne r = (let f = \<lfloor>r\<rfloor>; d = r - of_int f in
     if d < 1/2 then f else if 1/2 < d then f + 1 else if even f then f else f + 1)"

definition ilog2 :: "rat \<Rightarrow> int" where
  \<comment> \<open>the binary exponent of a non-zero rational, from the bit lengths of numerator and
      denominator\<close>
  "ilog2 x = (let (a, b) = quotient_of \<bar>x\<bar>; e = bitlen a - bitlen b
              in if 2 powi e \<le> \<bar>x\<bar> then e else e - 1)"

definition fl32 :: "rat \<Rightarrow> float32" where
  \<comment> \<open>24 significant bits, least exponent \<open>- 126\<close>\<close>
  "fl32 x = (if x = 0 then 0 else
     let q = 2 powi (max (- 126) (ilog2 x) - 23) in of_int (rne (x / q)) * q)"

definition fadd :: "float32 \<Rightarrow> float32 \<Rightarrow> float32" where
  "fadd a b = fl32 (a + b)"

definition fsub :: "float32 \<Rightarrow> float32 \<Rightarrow> float32" where
  "fsub a b = fl32 (a - b)"

definition c_rem :: "32 word \<Rightarrow> 32 word \<Rightarrow> 32 word" where
  \<comment> \<open>C's \<^verbatim>\<open>%\<close> on \<^verbatim>\<open>int\<close>: the remainder of the division that truncates towards zero\<close>
  "c_rem a b = word_of_int (sint a smod sint b)"


section \<open>The frame driver's state and its event handlers\<close>

text \<open>
  The variables of \<^verbatim>\<open>main\<close> that the event loop reads or writes, the SDL events it
  distinguishes, and the body of its \<^verbatim>\<open>while (SDL_PollEvent(&event))\<close> loop as a function
  from state and event to state. \<open>SDLK_unhandled\<close> and \<open>SDL_unhandled\<close> stand for every key
  and every event the \<^verbatim>\<open>switch\<close> and the \<^verbatim>\<open>if\<close> chain have no case for.
\<close>

datatype keysym = SDLK_ESCAPE | SDLK_q | SDLK_SPACE | SDLK_UP | SDLK_DOWN | SDLK_LEFT
  | SDLK_RIGHT | SDLK_PLUS | SDLK_EQUALS | SDLK_MINUS | SDLK_r | SDLK_unhandled

datatype event = SDL_QUIT | SDL_KEYDOWN keysym | SDL_WINDOWEVENT_RESIZED "32 word" "32 word"
  | SDL_unhandled

record app_state =
  running :: bool
  colorPalette :: "32 word"
  cameraOffsetX :: float32
  cameraOffsetY :: float32
  cameraDistance :: float32
  windowWidth :: "32 word"
  windowHeight :: "32 word"

definition initial_state :: app_state where
  "initial_state = \<lparr> running = True, colorPalette = 0,
     cameraOffsetX = fl32 0, cameraOffsetY = fl32 0, cameraDistance = fl32 (9/2),
     windowWidth = 1920, windowHeight = 1080 \<rparr>"

definition zoom_in :: "float32 \<Rightarrow> float32" where
  \<comment> \<open>\<^verbatim>\<open>cameraDistance -= 0.2f; if (cameraDistance < 2.0f) cameraDistance = 2.0f;\<close>\<close>
  "zoom_in d = (let d' = fsub d (fl32 (1/5)) in if d' < fl32 2 then fl32 2 else d')"

definition zoom_out :: "float32 \<Rightarrow> float32" where
  \<comment> \<open>\<^verbatim>\<open>cameraDistance += 0.2f; if (cameraDistance > 10.0f) cameraDistance = 10.0f;\<close>\<close>
  "zoom_out d = (let d' = fadd d (fl32 (1/5)) in if fl32 10 < d' then fl32 10 else d')"

fun handle_key :: "app_state \<Rightarrow> keysym \<Rightarrow> app_state" where
  "handle_key s SDLK_ESCAPE = s\<lparr>running := False\<rparr>"
| "handle_key s SDLK_q = s\<lparr>running := False\<rparr>"
| "handle_key s SDLK_SPACE = s\<lparr>colorPalette := c_rem (colorPalette s + 1) 4\<rparr>"
| "handle_key s SDLK_UP = s\<lparr>cameraOffsetY := fadd (cameraOffsetY s) (fl32 (1/10))\<rparr>"
| "handle_key s SDLK_DOWN = s\<lparr>cameraOffsetY := fsub (cameraOffsetY s) (fl32 (1/10))\<rparr>"
| "handle_key s SDLK_LEFT = s\<lparr>cameraOffsetX := fsub (cameraOffsetX s) (fl32 (1/10))\<rparr>"
| "handle_key s SDLK_RIGHT = s\<lparr>cameraOffsetX := fadd (cameraOffsetX s) (fl32 (1/10))\<rparr>"
| "handle_key s SDLK_PLUS = s\<lparr>cameraDistance := zoom_in (cameraDistance s)\<rparr>"
| "handle_key s SDLK_EQUALS = s\<lparr>cameraDistance := zoom_in (cameraDistance s)\<rparr>"
| "handle_key s SDLK_MINUS = s\<lparr>cameraDistance := zoom_out (cameraDistance s)\<rparr>"
| "handle_key s SDLK_r =
     s\<lparr>cameraOffsetX := fl32 0, cameraOffsetY := fl32 0, cameraDistance := fl32 (9/2)\<rparr>"
| "handle_key s SDLK_unhandled = s"

fun handle_event :: "app_state \<Rightarrow> event \<Rightarrow> app_state" where
  "handle_event s SDL_QUIT = s\<lparr>running := False\<rparr>"
| "handle_event s (SDL_KEYDOWN k) = handle_key s k"
| "handle_event s (SDL_WINDOWEVENT_RESIZED w h) = s\<lparr>windowWidth := w, windowHeight := h\<rparr>"
| "handle_event s SDL_unhandled = s"

definition state_ok :: "app_state \<Rightarrow> bool" where
  \<comment> \<open>the bounds on the camera distance and on the palette index\<close>
  "state_ok s = (2 \<le> cameraDistance s \<and> cameraDistance s \<le> 10
      \<and> 0 \<le> sint (colorPalette s) \<and> sint (colorPalette s) \<le> 3)"

definition run_events :: "app_state \<Rightarrow> event list \<Rightarrow> app_state" where
  \<comment> \<open>the inner loop drains the whole queue, also after \<^verbatim>\<open>running\<close> became false\<close>
  "run_events = foldl handle_event"



datatype vec3 = Vec3 (vx: real) (vy: real) (vz: real)


definition vsub :: "vec3 \<Rightarrow> vec3 \<Rightarrow> vec3" where
  "vsub a b = Vec3 (vx a - vx b) (vy a - vy b) (vz a - vz b)"



definition length3 :: "vec3 \<Rightarrow> real" where
  "length3 a = sqrt (vx a * vx a + vy a * vy a + vz a * vz a)"


definition a1 :: vec3 where "a1 = Vec3 1 1 1"
definition a2 :: vec3 where "a2 = Vec3 (- 1) (- 1) 1"
definition a3 :: vec3 where "a3 = Vec3 1 (- 1) (- 1)"
definition a4 :: vec3 where "a4 = Vec3 (- 1) 1 (- 1)"





definition vertices :: "vec3 list" where "vertices = [a1, a2, a3, a4]"

definition nearestVertex :: "vec3 \<Rightarrow> vec3" where
  "nearestVertex p =
     (let m = Min (set (map (\<lambda>v. length3 (vsub p v)) vertices))
      in hd (filter (\<lambda>v. length3 (vsub p v) = m) vertices))"












definition fmax :: "real \<Rightarrow> real \<Rightarrow> real" where
  "fmax a b = (if a < b then b else a)"





























section \<open>Rounding keeps values on the right side of a binary32 number\<close>

lemma rne_le: "r \<le> of_int n \<Longrightarrow> rne r \<le> n"
  unfolding rne_def Let_def by (auto; linarith)

lemma rne_ge: "of_int n \<le> r \<Longrightarrow> n \<le> rne r"
  unfolding rne_def Let_def by (auto; linarith)

lemma ilog2_le:
  assumes "x \<noteq> 0"
  shows "2 powi (ilog2 x) \<le> \<bar>x\<bar>"
proof -
  obtain a b where ab: "quotient_of \<bar>x\<bar> = (a, b)"
    by (cases "quotient_of \<bar>x\<bar>")
  have b: "0 < b"
    using ab quotient_of_denom_pos by blast
  have x: "\<bar>x\<bar> = of_int a / of_int b"
    using ab quotient_of_div by blast
  have a: "0 < a"
  proof (rule ccontr)
    assume "\<not> 0 < a"
    then have "of_int a / of_int b \<le> (0::rat)"
      using b by (simp add: divide_le_0_iff)
    with x assms show False by simp
  qed
  have la: "0 \<le> bitlen a - 1"
    using a bitlen_eq_zero_iff [of a] bitlen_nonneg [of a] by linarith
  have "(2::int) ^ nat (bitlen a - 1) \<le> a"
    using bitlen_bounds [OF a] by simp
  then have "(of_int ((2::int) ^ nat (bitlen a - 1)) :: rat) \<le> of_int a"
    by (simp only: of_int_le_iff)
  then have A: "(2::rat) powi (bitlen a - 1) \<le> of_int a"
    using la by (simp add: power_int_def)
  have "b < (2::int) ^ nat (bitlen b)"
    using bitlen_bounds [OF b] by simp
  then have "(of_int b :: rat) < of_int ((2::int) ^ nat (bitlen b))"
    by (simp only: of_int_less_iff)
  then have B: "of_int b < (2::rat) powi (bitlen b)"
    using bitlen_nonneg [of b] by (simp add: power_int_def)
  have "(2::rat) powi (bitlen a - bitlen b - 1) = 2 powi (bitlen a - 1) / 2 powi (bitlen b)"
    using power_int_diff [of "2::rat" "bitlen a - 1" "bitlen b"] by (simp add: algebra_simps)
  also have "\<dots> \<le> of_int a / of_int b"
    using A B a b by (intro frac_le) auto
  finally have low: "(2::rat) powi (bitlen a - bitlen b - 1) \<le> \<bar>x\<bar>"
    using x by simp
  show ?thesis
    using low ab by (simp add: ilog2_def Let_def)
qed

lemma ilog2_less:
  assumes "x \<noteq> 0" and "\<bar>x\<bar> < 2 powi k"
  shows "ilog2 x < k"
proof (rule ccontr)
  assume "\<not> ilog2 x < k"
  then have "(2::rat) powi k \<le> 2 powi (ilog2 x)"
    by (intro power_int_increasing) auto
  with ilog2_le [OF assms(1)] assms(2) show False by linarith
qed

text \<open>
  A number \<open>n * 2 powi k\<close> whose spacing exponent \<open>k\<close> is at least that of \<open>x\<close> is a
  multiple of the unit in the last place of \<open>x\<close>, so rounding \<open>x\<close> cannot cross it.
\<close>

lemma fl32_le_grid:
  assumes le: "x \<le> of_int n * 2 powi k" and bd: "\<bar>x\<bar> < 2 powi (k + 24)" and k: "- 149 \<le> k"
  shows "fl32 x \<le> of_int n * 2 powi k"
proof (cases "x = 0")
  case True
  with le show ?thesis by (simp add: fl32_def)
next
  case False
  define e where "e = max (- 126) (ilog2 x) - 23"
  have ek: "e \<le> k"
    using ilog2_less [OF False bd] k by (simp add: e_def)
  define q :: rat where "q = 2 powi e"
  have q: "0 < q" by (simp add: q_def)
  have pk: "(2::rat) powi k = of_int (2 ^ nat (k - e)) * q"
    using ek power_int_add [of "2::rat" "k - e" e] by (simp add: q_def power_int_def)
  have "x / q \<le> of_int (n * 2 ^ nat (k - e))"
    using le q pk by (simp add: field_simps)
  then have "rne (x / q) \<le> n * 2 ^ nat (k - e)"
    by (rule rne_le)
  then have "(of_int (rne (x / q)) :: rat) \<le> of_int (n * 2 ^ nat (k - e))"
    by (simp only: of_int_le_iff)
  then have "of_int (rne (x / q)) * q \<le> of_int (n * 2 ^ nat (k - e)) * q"
    using q by (simp only: mult_le_cancel_right_pos)
  also have "\<dots> = of_int n * 2 powi k"
    using pk by simp
  finally show ?thesis
    using False by (simp add: fl32_def Let_def e_def q_def)
qed

lemma fl32_ge_grid:
  assumes le: "of_int n * 2 powi k \<le> x" and bd: "\<bar>x\<bar> < 2 powi (k + 24)" and k: "- 149 \<le> k"
  shows "of_int n * 2 powi k \<le> fl32 x"
proof (cases "x = 0")
  case True
  with le show ?thesis by (simp add: fl32_def)
next
  case False
  define e where "e = max (- 126) (ilog2 x) - 23"
  have ek: "e \<le> k"
    using ilog2_less [OF False bd] k by (simp add: e_def)
  define q :: rat where "q = 2 powi e"
  have q: "0 < q" by (simp add: q_def)
  have pk: "(2::rat) powi k = of_int (2 ^ nat (k - e)) * q"
    using ek power_int_add [of "2::rat" "k - e" e] by (simp add: q_def power_int_def)
  have "of_int (n * 2 ^ nat (k - e)) \<le> x / q"
    using le q pk by (simp add: field_simps)
  then have "n * 2 ^ nat (k - e) \<le> rne (x / q)"
    by (rule rne_ge)
  then have "(of_int (n * 2 ^ nat (k - e)) :: rat) \<le> of_int (rne (x / q))"
    by (simp only: of_int_le_iff)
  then have "of_int (n * 2 ^ nat (k - e)) * q \<le> of_int (rne (x / q)) * q"
    using q by (simp only: mult_le_cancel_right_pos)
  then have "of_int n * (of_int (2 ^ nat (k - e)) * q) \<le> of_int (rne (x / q)) * q"
    by (simp add: mult.assoc)
  then have "of_int n * 2 powi k \<le> of_int (rne (x / q)) * q"
    by (simp only: pk)
  then show ?thesis
    using False by (simp add: fl32_def Let_def e_def q_def)
qed

lemma fl32_lits:
  "fl32 0 = 0" "fl32 2 = 2" "fl32 10 = 10" "fl32 (9/2) = 9/2"
  "fl32 (1/5) = 13421773 / 67108864"
  by code_simp+


section \<open>The event handlers\<close>

lemma zoom_in_alt:
  "zoom_in d = (let d' = fl32 (d - 13421773 / 67108864) in if d' < 2 then 2 else d')"
  by (simp add: zoom_in_def fsub_def fl32_lits Let_def)

lemma zoom_out_alt:
  "zoom_out d = (let d' = fl32 (d + 13421773 / 67108864) in if 10 < d' then 10 else d')"
  by (simp add: zoom_out_def fadd_def fl32_lits Let_def)

lemma zoom_in_chain:
  "zoom_in (9 / 2) = 4508877 / 1048576"
  "zoom_in (4508877 / 1048576) = 2149581 / 524288"
  "zoom_in (2149581 / 524288) = 16357787 / 4194304"
  "zoom_in (16357787 / 4194304) = 7759463 / 2097152"
  "zoom_in (7759463 / 2097152) = 14680065 / 4194304"
  "zoom_in (14680065 / 4194304) = 3460301 / 1048576"
  "zoom_in (3460301 / 1048576) = 13002343 / 4194304"
  "zoom_in (13002343 / 4194304) = 6081741 / 2097152"
  "zoom_in (6081741 / 2097152) = 11324621 / 4194304"
  "zoom_in (11324621 / 4194304) = 5 / 2"
  "zoom_in (5 / 2) = 9646899 / 4194304"
  "zoom_in (9646899 / 4194304) = 4404019 / 2097152"
  "zoom_in (4404019 / 2097152) = 2"
  "zoom_in (2) = 2"
  unfolding zoom_in_alt by code_simp+

lemma zoom_out_chain:
  "zoom_out (2) = 9227469 / 4194304"
  "zoom_out (9227469 / 4194304) = 5033165 / 2097152"
  "zoom_out (5033165 / 2097152) = 10905191 / 4194304"
  "zoom_out (10905191 / 4194304) = 2936013 / 1048576"
  "zoom_out (2936013 / 1048576) = 12582913 / 4194304"
  "zoom_out (12582913 / 4194304) = 6710887 / 2097152"
  "zoom_out (6710887 / 2097152) = 14260635 / 4194304"
  "zoom_out (14260635 / 4194304) = 1887437 / 524288"
  "zoom_out (1887437 / 524288) = 15938357 / 4194304"
  "zoom_out (15938357 / 4194304) = 8388609 / 2097152"
  "zoom_out (8388609 / 2097152) = 8808039 / 2097152"
  "zoom_out (8808039 / 2097152) = 9227469 / 2097152"
  "zoom_out (9227469 / 2097152) = 9646899 / 2097152"
  "zoom_out (9646899 / 2097152) = 10066329 / 2097152"
  "zoom_out (10066329 / 2097152) = 10485759 / 2097152"
  "zoom_out (10485759 / 2097152) = 10905189 / 2097152"
  "zoom_out (10905189 / 2097152) = 11324619 / 2097152"
  "zoom_out (11324619 / 2097152) = 11744049 / 2097152"
  "zoom_out (11744049 / 2097152) = 12163479 / 2097152"
  "zoom_out (12163479 / 2097152) = 12582909 / 2097152"
  "zoom_out (12582909 / 2097152) = 13002339 / 2097152"
  "zoom_out (13002339 / 2097152) = 13421769 / 2097152"
  "zoom_out (13421769 / 2097152) = 13841199 / 2097152"
  "zoom_out (13841199 / 2097152) = 14260629 / 2097152"
  "zoom_out (14260629 / 2097152) = 14680059 / 2097152"
  "zoom_out (14680059 / 2097152) = 15099489 / 2097152"
  "zoom_out (15099489 / 2097152) = 15518919 / 2097152"
  "zoom_out (15518919 / 2097152) = 15938349 / 2097152"
  "zoom_out (15938349 / 2097152) = 16357779 / 2097152"
  "zoom_out (16357779 / 2097152) = 16777209 / 2097152"
  "zoom_out (16777209 / 2097152) = 537395 / 65536"
  "zoom_out (537395 / 65536) = 8808035 / 1048576"
  "zoom_out (8808035 / 1048576) = 4508875 / 524288"
  "zoom_out (4508875 / 524288) = 9227465 / 1048576"
  "zoom_out (9227465 / 1048576) = 2359295 / 262144"
  "zoom_out (2359295 / 262144) = 9646895 / 1048576"
  "zoom_out (9646895 / 1048576) = 4928305 / 524288"
  "zoom_out (4928305 / 524288) = 10066325 / 1048576"
  "zoom_out (10066325 / 1048576) = 1284505 / 131072"
  "zoom_out (1284505 / 131072) = 10485755 / 1048576"
  "zoom_out (10485755 / 1048576) = 10"
  "zoom_out (10) = 10"
  unfolding zoom_out_alt by code_simp+

lemma zoom_in_13: "(zoom_in ^^ 13) (9/2) = 2"
  by (simp add: eval_nat_numeral zoom_in_chain)
lemma zoom_out_41: "(zoom_out ^^ 41) 2 = 10"
  by (simp add: eval_nat_numeral zoom_out_chain)

lemma c_rem_palette:
  assumes "0 \<le> sint p" "sint p \<le> 3"
  shows "0 \<le> sint (c_rem (p + 1) 4) \<and> sint (c_rem (p + 1) 4) \<le> 3"
proof -
  have "sint p = 0 \<or> sint p = 1 \<or> sint p = 2 \<or> sint p = 3"
    using assms by auto
  then have "sint p = sint (0 :: 32 word) \<or> sint p = sint (1 :: 32 word)
     \<or> sint p = sint (2 :: 32 word) \<or> sint p = sint (3 :: 32 word)"
    by simp
  then have "p = 0 \<or> p = 1 \<or> p = 2 \<or> p = 3"
    by (blast intro: signed_word_eqI)
  then show ?thesis
    by (auto simp: c_rem_def signed_modulo_int_def)
qed

lemma zoom_in_bounds:
  assumes "2 \<le> d" "d \<le> 10"
  shows "2 \<le> zoom_in d \<and> zoom_in d \<le> 10"
proof -
  let ?x = "d - 13421773 / 67108864"
  have "?x \<le> of_int 5 * 2 powi 1" using assms by simp
  moreover have "\<bar>?x\<bar> < 2 powi (1 + 24)" using assms by simp
  ultimately have "fl32 ?x \<le> of_int 5 * 2 powi 1"
    by (rule fl32_le_grid) simp
  then show ?thesis by (simp add: zoom_in_alt Let_def)
qed

lemma zoom_out_bounds:
  assumes "2 \<le> d" "d \<le> 10"
  shows "2 \<le> zoom_out d \<and> zoom_out d \<le> 10"
proof -
  let ?x = "d + 13421773 / 67108864"
  have "of_int 1 * 2 powi 1 \<le> ?x" using assms by simp
  moreover have "\<bar>?x\<bar> < 2 powi (1 + 24)" using assms by simp
  ultimately have "of_int 1 * 2 powi 1 \<le> fl32 ?x"
    by (rule fl32_ge_grid) simp
  then show ?thesis by (simp add: zoom_out_alt Let_def)
qed

lemma handle_key_ok: "state_ok s \<Longrightarrow> state_ok (handle_key s k)"
  using zoom_in_bounds [of "cameraDistance s"] zoom_out_bounds [of "cameraDistance s"]
    c_rem_palette [of "colorPalette s"]
  by (cases k) (simp_all add: state_ok_def fl32_lits)

lemma handle_event_ok: "state_ok s \<Longrightarrow> state_ok (handle_event s e)"
  by (cases e) (simp_all add: handle_key_ok, simp_all add: state_ok_def)

lemma run_events_ok: "state_ok s \<Longrightarrow> state_ok (run_events s es)"
  unfolding run_events_def
  by (induction es arbitrary: s) (simp_all add: handle_event_ok)

lemma initial_ok: "state_ok initial_state"
  by (simp add: state_ok_def initial_state_def fl32_lits)

text \<open>
  Claim C5. Whatever finite sequence of events the frame driver handles, starting from the
  initial state of \<^verbatim>\<open>main\<close> (palette 0, distance 4.5), the camera distance stays within
  \<open>[2.0, 10.0]\<close> and the palette index within \<open>[0, 3]\<close>; every handler preserves both
  bounds (\<open>handle_event_ok\<close>).
\<close>

theorem camera_and_palette_bounds:
  "2 \<le> cameraDistance (run_events initial_state es)
   \<and> cameraDistance (run_events initial_state es) \<le> 10
   \<and> 0 \<le> sint (colorPalette (run_events initial_state es))
   \<and> sint (colorPalette (run_events initial_state es)) \<le> 3"
  using run_events_ok [OF initial_ok, of es] by (simp add: state_ok_def)

lemma distance_after_plus:
  "cameraDistance (run_events s (replicate n (SDL_KEYDOWN SDLK_PLUS)))
     = (zoom_in ^^ n) (cameraDistance s)"
  unfolding run_events_def
  by (induction n arbitrary: s) (simp_all add: funpow_swap1)

lemma distance_after_minus:
  "cameraDistance (run_events s (replicate n (SDL_KEYDOWN SDLK_MINUS)))
     = (zoom_out ^^ n) (cameraDistance s)"
  unfolding run_events_def
  by (induction n arbitrary: s) (simp_all add: funpow_swap1)

lemma funpow_fixed: "f x = x \<Longrightarrow> (f ^^ n) x = x"
  by (induction n) simp_all

lemma zoom_in_100: "(zoom_in ^^ 100) (9/2) = 2"
proof -
  have "(zoom_in ^^ (87 + 13)) (9/2) = (zoom_in ^^ 87) ((zoom_in ^^ 13) (9/2))"
    by (simp only: funpow_add o_apply)
  also have "\<dots> = 2" using zoom_in_chain(14) by (simp only: zoom_in_13 funpow_fixed)
  finally show ?thesis by simp
qed

lemma zoom_out_100: "(zoom_out ^^ 100) 2 = 10"
proof -
  have "(zoom_out ^^ (59 + 41)) 2 = (zoom_out ^^ 59) ((zoom_out ^^ 41) 2)"
    by (simp only: funpow_add o_apply)
  also have "\<dots> = 10" using zoom_out_chain(42) by (simp only: zoom_out_41 funpow_fixed)
  finally show ?thesis by simp
qed

text \<open>
  Claim C6. A hundred \<^verbatim>\<open>+\<close> key presses from distance 4.5 leave the distance at exactly 2.0:
  the thirteenth press reaches the lower clamp and every later one holds it. A hundred
  \<^verbatim>\<open>-\<close> key presses from distance 2.0 leave it at exactly 10.0: in binary32 the fortieth
  press gives \<open>10485755 / 1048576\<close>, just below 10, and the forty-first is clamped.
\<close>

theorem zoom_clamp_reached_and_held:
  "(cameraDistance s = fl32 (9/2) \<longrightarrow>
      cameraDistance (run_events s (replicate 100 (SDL_KEYDOWN SDLK_PLUS))) = fl32 2)
   \<and> (cameraDistance s = fl32 2 \<longrightarrow>
      cameraDistance (run_events s (replicate 100 (SDL_KEYDOWN SDLK_MINUS))) = fl32 10)"
proof (intro conjI impI)
  assume "cameraDistance s = fl32 (9/2)"
  then show "cameraDistance (run_events s (replicate 100 (SDL_KEYDOWN SDLK_PLUS))) = fl32 2"
    by (simp only: distance_after_plus fl32_lits zoom_in_100)
next
  assume "cameraDistance s = fl32 2"
  then show "cameraDistance (run_events s (replicate 100 (SDL_KEYDOWN SDLK_MINUS))) = fl32 10"
    by (simp only: distance_after_minus fl32_lits zoom_out_100)
qed

theorem zoom_clamp_witness:
  "cameraDistance initial_state = fl32 (9/2)
   \<and> cameraDistance (run_events initial_state (replicate 100 (SDL_KEYDOWN SDLK_PLUS))) = fl32 2
   \<and> cameraDistance (initial_state\<lparr>cameraDistance := fl32 2\<rparr>) = fl32 2
   \<and> cameraDistance (run_events (initial_state\<lparr>cameraDistance := fl32 2\<rparr>)
        (replicate 100 (SDL_KEYDOWN SDLK_MINUS))) = fl32 10"
  using zoom_clamp_reached_and_held [of initial_state]
    zoom_clamp_reached_and_held [of "initial_state\<lparr>cameraDistance := fl32 2\<rparr>"]
  by (simp add: initial_state_def)




















lemma first_minimum4:
  fixes d :: "nat \<Rightarrow> real"
  defines "m \<equiv> Min {d 0, d 1, d 2, d 3}"
  defines "i \<equiv> (if d 0 = m then 0 else if d 1 = m then 1 else if d 2 = m then 2 else (3::nat))"
  shows "i < 4 \<and> d i = m \<and> (\<forall>j<4. d i \<le> d j) \<and> (\<forall>j<i. d i < d j)"
proof -
  have le: "m \<le> d 0" "m \<le> d 1" "m \<le> d 2" "m \<le> d 3"
    by (simp_all add: m_def)
  have "m \<in> {d 0, d 1, d 2, d 3}"
    unfolding m_def by (rule Min_in) simp_all
  then have di: "d i = m"
    by (auto simp: i_def)
  have i4: "i < 4" by (simp add: i_def)
  have all: "\<forall>j<4. d i \<le> d j"
  proof (intro allI impI)
    fix j :: nat assume "j < 4"
    then have "j = 0 \<or> j = 1 \<or> j = 2 \<or> j = 3" by arith
    then show "d i \<le> d j" using le di by auto
  qed
  have first: "\<forall>j<i. d i < d j"
  proof (intro allI impI)
    fix j assume j: "j < i"
    then have "j < 4" using i4 by simp
    then have c: "j = 0 \<or> j = 1 \<or> j = 2 \<or> j = 3" by arith
    have "d j \<noteq> m"
      using j c by (auto simp: i_def split: if_splits)
    moreover have "m \<le> d j" using c le by auto
    ultimately show "d i < d j" using di by simp
  qed
  from i4 di all first show ?thesis by simp
qed

lemma nearestVertex_first_minimum:
  "\<exists>i<4. nearestVertex p = vertices ! i
     \<and> (\<forall>j<4. length3 (vsub p (vertices ! i)) \<le> length3 (vsub p (vertices ! j)))
     \<and> (\<forall>j<i. length3 (vsub p (vertices ! i)) < length3 (vsub p (vertices ! j)))"
proof -
  define d where "d = (\<lambda>j. length3 (vsub p (vertices ! j)))"
  define m where "m = Min {d 0, d 1, d 2, d 3}"
  define i where "i = (if d 0 = m then 0 else if d 1 = m then 1 else if d 2 = m then 2 else (3::nat))"
  note f = first_minimum4 [of d, folded m_def, folded i_def]
  have v: "d 0 = length3 (vsub p a1)" "d 1 = length3 (vsub p a2)"
    "d 2 = length3 (vsub p a3)" "d 3 = length3 (vsub p a4)" "d (Suc 0) = length3 (vsub p a2)"
    by (simp_all add: d_def vertices_def)
  have m: "Min (set (map (\<lambda>v. length3 (vsub p v)) vertices)) = m"
    by (simp add: m_def v vertices_def)
  have d3: "d 0 \<noteq> m \<Longrightarrow> d 1 \<noteq> m \<Longrightarrow> d 2 \<noteq> m \<Longrightarrow> d 3 = m"
    using f by (simp add: i_def)
  have "nearestVertex p = vertices ! i"
    unfolding nearestVertex_def m Let_def
    using d3 by (simp add: vertices_def v [symmetric] i_def)
  with f show ?thesis
    unfolding d_def by blast
qed

















































end
